theory Spec2Isabelle
  imports Main "HOL-Library.AList"
begin

section \<open>Python values\<close>

text \<open>
  A Python \<open>str\<close> is a sequence of Unicode code points, so it is modelled as a list of
  natural numbers; \<open>str\<close> turns an Isabelle string literal into one.
\<close>

type_synonym pystr = "nat list"

definition str :: "string \<Rightarrow> pystr" where
  "str cs = map of_char cs"

text \<open>
  The values that travel through the fields of a JSON-RPC message: \<open>None\<close>, booleans,
  integers, floats, strings, lists and dictionaries with string keys (in insertion order).
  A float is carried by the numeral text that \<open>json\<close> hands to \<open>float()\<close>, or by the name
  of the constant (\<open>NaN\<close>, \<open>Infinity\<close>, \<open>-Infinity\<close>).
\<close>

datatype pyval =
    PNone
  | PBool bool
  | PInt int
  | PFloat pystr
  | PStr pystr
  | PList "pyval list"
  | PDict "(pystr \<times> pyval) list"

datatype py_error = JSONDecodeError | TypeError | ValueError | KeyError | OutOfFuel

text \<open>\<open>d.get(key, None)\<close> on a dictionary.\<close>

definition dict_get :: "(pystr \<times> pyval) list \<Rightarrow> pystr \<Rightarrow> pyval" where
  "dict_get d key = (case map_of d key of None \<Rightarrow> PNone | Some v \<Rightarrow> v)"

text \<open>\<open>dict(pairs)\<close>: a later pair with the same key replaces the value and keeps the place.\<close>

definition dict_of_pairs :: "(pystr \<times> pyval) list \<Rightarrow> (pystr \<times> pyval) list" where
  "dict_of_pairs pairs = foldl (\<lambda>d (k, v). AList.update k v d) [] pairs"

section \<open>The JSON decoder behind \<open>json.loads\<close>\<close>

text \<open>
  \<open>maybe_json\<close> calls \<open>json.loads\<close> of the standard library. Its decoder is modelled after
  \<open>json/decoder.py\<close> and \<open>json/scanner.py\<close> with the default settings (strict mode, no
  hooks). Positions in the text are modelled by the remaining suffix. The interpreter's
  resource limits (recursion depth, the digit limit of \<open>int()\<close>) are not modelled.
\<close>

definition is_ws :: "nat \<Rightarrow> bool" where
  "is_ws c \<longleftrightarrow> c = 0x20 \<or> c = 0x09 \<or> c = 0x0A \<or> c = 0x0D"

definition skip_ws :: "pystr \<Rightarrow> pystr" where
  "skip_ws s = dropWhile is_ws s"

definition is_digit :: "nat \<Rightarrow> bool" where
  "is_digit c \<longleftrightarrow> 0x30 \<le> c \<and> c \<le> 0x39"

definition hex_digit :: "nat \<Rightarrow> nat option" where
  "hex_digit c =
     (if 0x30 \<le> c \<and> c \<le> 0x39 then Some (c - 0x30)
      else if 0x61 \<le> c \<and> c \<le> 0x66 then Some (c - 0x57)
      else if 0x41 \<le> c \<and> c \<le> 0x46 then Some (c - 0x37)
      else None)"

text \<open>\<open>_decode_uXXXX\<close>, applied to the text that follows the \<open>u\<close>.\<close>

fun decode_uXXXX :: "pystr \<Rightarrow> nat option" where
  "decode_uXXXX (a # b # c # d # s) =
     (case hex_digit a of None \<Rightarrow> None | Some w \<Rightarrow>
       (case hex_digit b of None \<Rightarrow> None | Some x \<Rightarrow>
         (case hex_digit c of None \<Rightarrow> None | Some y \<Rightarrow>
           (case hex_digit d of None \<Rightarrow> None | Some z \<Rightarrow>
              Some (((w * 16 + x) * 16 + y) * 16 + z)))))"
| "decode_uXXXX s = None"

text \<open>The table \<open>BACKSLASH\<close> of one-letter escapes.\<close>

definition BACKSLASH :: "nat \<Rightarrow> nat option" where
  "BACKSLASH esc =
     (if esc = 0x22 then Some 0x22
      else if esc = 0x5C then Some 0x5C
      else if esc = 0x2F then Some 0x2F
      else if esc = 0x62 then Some 0x08
      else if esc = 0x66 then Some 0x0C
      else if esc = 0x6E then Some 0x0A
      else if esc = 0x72 then Some 0x0D
      else if esc = 0x74 then Some 0x09
      else None)"

text \<open>
  \<open>py_scanstring\<close>, entered after the opening quote: it returns the decoded string and the
  text after the closing quote. A raw control character ends the scan with an error
  (strict mode); a high surrogate escape directly followed by a low surrogate escape is
  joined into one code point.
\<close>

fun scanstring :: "pystr \<Rightarrow> pystr \<Rightarrow> py_error + (pystr \<times> pystr)" where
  "scanstring chunks [] = Inl JSONDecodeError"
| "scanstring chunks (c # s) =
     (if c = 0x22 then Inr (chunks, s)
      else if c = 0x5C then
        (case s of
           [] \<Rightarrow> Inl JSONDecodeError
         | esc # s1 \<Rightarrow>
             if esc \<noteq> 0x75 then
               (case BACKSLASH esc of
                  None \<Rightarrow> Inl JSONDecodeError
                | Some ch \<Rightarrow> scanstring (chunks @ [ch]) s1)
             else
               (case decode_uXXXX s1 of
                  None \<Rightarrow> Inl JSONDecodeError
                | Some uni \<Rightarrow>
                    if 0xD800 \<le> uni \<and> uni \<le> 0xDBFF \<and> take 2 (drop 4 s1) = [0x5C, 0x75] then
                      (case decode_uXXXX (drop 6 s1) of
                         None \<Rightarrow> Inl JSONDecodeError
                       | Some uni2 \<Rightarrow>
                           if 0xDC00 \<le> uni2 \<and> uni2 \<le> 0xDFFF then
                             scanstring
                               (chunks @ [0x10000 + or (push_bit 10 (uni - 0xD800)) (uni2 - 0xDC00)])
                               (drop 10 s1)
                           else scanstring (chunks @ [uni]) (drop 4 s1))
                    else scanstring (chunks @ [uni]) (drop 4 s1)))
      else if c < 0x20 then Inl JSONDecodeError
      else scanstring (chunks @ [c]) s)"

text \<open>
  \<open>NUMBER_RE\<close>, \<open>(-?(?:0|[1-9][0-9]*))(\.[0-9]+)?([eE][-+]?[0-9]+)?\<close>, matched at the start
  of the text: the three groups (an absent group is the empty string) and the rest.
\<close>

definition match_integer :: "pystr \<Rightarrow> (pystr \<times> pystr) option" where
  "match_integer s =
     (let (sign, s1) = (case s of c # t \<Rightarrow> if c = 0x2D then ([c], t) else ([], s) | [] \<Rightarrow> ([], s))
      in case s1 of
           [] \<Rightarrow> None
         | d # t \<Rightarrow>
             if d = 0x30 then Some (sign @ [d], t)
             else if is_digit d then Some (sign @ d # takeWhile is_digit t, dropWhile is_digit t)
             else None)"

definition match_frac :: "pystr \<Rightarrow> pystr \<times> pystr" where
  "match_frac s =
     (case s of
        c # t \<Rightarrow>
          if c = 0x2E \<and> takeWhile is_digit t \<noteq> []
          then (c # takeWhile is_digit t, dropWhile is_digit t)
          else ([], s)
      | [] \<Rightarrow> ([], s))"

definition match_exp :: "pystr \<Rightarrow> pystr \<times> pystr" where
  "match_exp s =
     (case s of
        c # t \<Rightarrow>
          if c = 0x65 \<or> c = 0x45 then
            (let (sign, t1) =
               (case t of g # u \<Rightarrow> if g = 0x2D \<or> g = 0x2B then ([g], u) else ([], t) | [] \<Rightarrow> ([], t))
             in if takeWhile is_digit t1 \<noteq> []
                then (c # sign @ takeWhile is_digit t1, dropWhile is_digit t1)
                else ([], s))
          else ([], s)
      | [] \<Rightarrow> ([], s))"

definition match_number :: "pystr \<Rightarrow> ((pystr \<times> pystr \<times> pystr) \<times> pystr) option" where
  "match_number s =
     (case match_integer s of
        None \<Rightarrow> None
      | Some (integer, s1) \<Rightarrow>
          (let (frac, s2) = match_frac s1; (exp, s3) = match_exp s2
           in Some ((integer, frac, exp), s3)))"

text \<open>\<open>int(integer)\<close> on a text matched by the first group of \<open>NUMBER_RE\<close>.\<close>

definition digits_value :: "pystr \<Rightarrow> nat" where
  "digits_value ds = foldl (\<lambda>a d. 10 * a + (d - 0x30)) 0 ds"

definition parse_int :: "pystr \<Rightarrow> int" where
  "parse_int s =
     (case s of
        c # t \<Rightarrow> if c = 0x2D then - int (digits_value t) else int (digits_value s)
      | [] \<Rightarrow> 0)"

text \<open>
  \<open>py_make_scanner._scan_once\<close> with \<open>JSONArray\<close> and \<open>JSONObject\<close>. The two \<open>while\<close> loops
  are the functions \<open>array_loop\<close> and \<open>object_loop\<close>, which carry the values and pairs read
  so far. The recursion is bounded by a step budget; \<open>json_decode\<close> below starts it with a
  budget that is never used up (lemma \<open>json_decode_fuel\<close>).
\<close>

fun scan_once :: "nat \<Rightarrow> pystr \<Rightarrow> py_error + (pyval \<times> pystr)"
  and array_loop :: "nat \<Rightarrow> pyval list \<Rightarrow> pystr \<Rightarrow> py_error + (pyval \<times> pystr)"
  and object_loop :: "nat \<Rightarrow> (pystr \<times> pyval) list \<Rightarrow> pystr \<Rightarrow> py_error + (pyval \<times> pystr)"
where
  "scan_once 0 s = Inl OutOfFuel"
| "scan_once (Suc n) [] = Inl JSONDecodeError"
| "scan_once (Suc n) (c # s) =
     (if c = 0x22 then
        (case scanstring [] s of Inl e \<Rightarrow> Inl e | Inr (x, r) \<Rightarrow> Inr (PStr x, r))
      else if c = 0x7B then
        (case skip_ws s of
           [] \<Rightarrow> Inl JSONDecodeError
         | c1 # r \<Rightarrow>
             if c1 = 0x7D then Inr (PDict [], r)
             else if c1 = 0x22 then object_loop n [] r
             else Inl JSONDecodeError)
      else if c = 0x5B then
        (case skip_ws s of
           [] \<Rightarrow> array_loop n [] []
         | c1 # r \<Rightarrow> if c1 = 0x5D then Inr (PList [], r) else array_loop n [] (c1 # r))
      else if c = 0x6E \<and> take 4 (c # s) = str ''null'' then Inr (PNone, drop 3 s)
      else if c = 0x74 \<and> take 4 (c # s) = str ''true'' then Inr (PBool True, drop 3 s)
      else if c = 0x66 \<and> take 5 (c # s) = str ''false'' then Inr (PBool False, drop 4 s)
      else
        (case match_number (c # s) of
           Some ((integer, frac, exp), r) \<Rightarrow>
             if frac \<noteq> [] \<or> exp \<noteq> [] then Inr (PFloat (integer @ frac @ exp), r)
             else Inr (PInt (parse_int integer), r)
         | None \<Rightarrow>
             if c = 0x4E \<and> take 3 (c # s) = str ''NaN'' then Inr (PFloat (str ''NaN''), drop 2 s)
             else if c = 0x49 \<and> take 8 (c # s) = str ''Infinity''
               then Inr (PFloat (str ''Infinity''), drop 7 s)
             else if c = 0x2D \<and> take 9 (c # s) = str ''-Infinity''
               then Inr (PFloat (str ''-Infinity''), drop 8 s)
             else Inl JSONDecodeError))"
| "array_loop 0 values s = Inl OutOfFuel"
| "array_loop (Suc n) values s =
     (case scan_once n s of
        Inl e \<Rightarrow> Inl e
      | Inr (v, r) \<Rightarrow>
          (case skip_ws r of
             [] \<Rightarrow> Inl JSONDecodeError
           | c # r1 \<Rightarrow>
               if c = 0x5D then Inr (PList (values @ [v]), r1)
               else if c \<noteq> 0x2C then Inl JSONDecodeError
               else array_loop n (values @ [v]) (skip_ws r1)))"
| "object_loop 0 pairs s = Inl OutOfFuel"
| "object_loop (Suc n) pairs s =
     (case scanstring [] s of
        Inl e \<Rightarrow> Inl e
      | Inr (key, r) \<Rightarrow>
          (case skip_ws r of
             [] \<Rightarrow> Inl JSONDecodeError
           | c # r1 \<Rightarrow>
               if c \<noteq> 0x3A then Inl JSONDecodeError
               else
                 (case scan_once n (skip_ws r1) of
                    Inl e \<Rightarrow> Inl e
                  | Inr (v, r2) \<Rightarrow>
                      (case skip_ws r2 of
                         [] \<Rightarrow> Inl JSONDecodeError
                       | c2 # r3 \<Rightarrow>
                           if c2 = 0x7D then Inr (PDict (dict_of_pairs (pairs @ [(key, v)])), r3)
                           else if c2 \<noteq> 0x2C then Inl JSONDecodeError
                           else
                             (case skip_ws r3 of
                                [] \<Rightarrow> Inl JSONDecodeError
                              | c3 # r4 \<Rightarrow>
                                  if c3 \<noteq> 0x22 then Inl JSONDecodeError
                                  else object_loop n (pairs @ [(key, v)]) r4)))))"

text \<open>\<open>JSONDecoder.decode\<close>: skip white space, read one value, allow only white space after it.\<close>

definition json_decode :: "pystr \<Rightarrow> py_error + pyval" where
  "json_decode s =
     (case scan_once (2 * length s + 1) (skip_ws s) of
        Inl e \<Rightarrow> Inl e
      | Inr (obj, r) \<Rightarrow> if skip_ws r \<noteq> [] then Inl JSONDecodeError else Inr obj)"

text \<open>
  \<open>json.loads\<close>: a \<open>str\<close> that starts with the byte order mark is refused, any other
  \<open>str\<close> is decoded, and a value that is no text raises \<open>TypeError\<close>.
\<close>

definition json_loads :: "pyval \<Rightarrow> py_error + pyval" where
  "json_loads v =
     (case v of
        PStr s \<Rightarrow> if take 1 s = [0xFEFF] then Inl JSONDecodeError else json_decode s
      | _ \<Rightarrow> Inl TypeError)"


section \<open>The message record\<close>

text \<open>The converter of the fields \<open>params\<close>, \<open>result\<close> and \<open>error\<close>.\<close>

definition maybe_json :: "pyval \<Rightarrow> pyval" where
  "maybe_json v = (case json_loads v of Inr r \<Rightarrow> r | Inl e \<Rightarrow> v)"

text \<open>
  A \<open>datetime\<close>: year, month, day, hour, minute, second, microsecond and the offset from
  UTC in seconds, if the value carries one.
\<close>

datatype datetime = Datetime int int int int int int int "int option"

record LspMessage =
  session :: pystr
  timestamp :: datetime
  source :: pystr
  id' :: pyval
  method' :: pyval
  params :: pyval
  result :: pyval
  error :: pyval

text \<open>The constructor that \<open>attrs\<close> generates: it runs the converters of the last three fields.\<close>

definition LspMessage_init ::
  "pystr \<Rightarrow> datetime \<Rightarrow> pystr \<Rightarrow> pyval \<Rightarrow> pyval \<Rightarrow> pyval \<Rightarrow> pyval \<Rightarrow> pyval \<Rightarrow> LspMessage" where
  "LspMessage_init session0 timestamp0 source0 id0 method0 params0 result0 error0 =
     \<lparr>session = session0, timestamp = timestamp0, source = source0,
      id' = id0, method' = method0,
      params = maybe_json params0, result = maybe_json result0, error = maybe_json error0\<rparr>"

text \<open>
  \<open>LspMessage.from_rpc\<close>. \<open>datetime.fromisoformat\<close> belongs to the standard library and
  its grammar depends on the interpreter's version, so it is a parameter: \<open>None\<close> stands for
  the \<open>ValueError\<close> it raises on a text it cannot parse. The timestamp is parsed before
  anything else is evaluated.
\<close>

definition from_rpc ::
  "(pystr \<Rightarrow> datetime option) \<Rightarrow> pystr \<Rightarrow> pystr \<Rightarrow> pystr \<Rightarrow> (pystr \<times> pyval) list
     \<Rightarrow> py_error + LspMessage" where
  "from_rpc fromisoformat session0 timestamp0 source0 message =
     (case fromisoformat timestamp0 of
        None \<Rightarrow> Inl ValueError
      | Some ts \<Rightarrow>
          Inr (LspMessage_init session0 ts source0
                 (dict_get message (str ''id''))
                 (dict_get message (str ''method''))
                 (dict_get message (str ''params''))
                 (dict_get message (str ''result''))
                 (dict_get message (str ''error''))))"

definition is_request :: "LspMessage \<Rightarrow> bool" where
  "is_request m \<longleftrightarrow> id' m \<noteq> PNone \<and> params m \<noteq> PNone"

definition is_response :: "LspMessage \<Rightarrow> bool" where
  "is_response m \<longleftrightarrow>
     (let result_or_error = (result m \<noteq> PNone \<or> error m \<noteq> PNone)
      in id' m \<noteq> PNone \<and> result_or_error)"

definition is_notification :: "LspMessage \<Rightarrow> bool" where
  "is_notification m \<longleftrightarrow> id' m = PNone \<and> params m \<noteq> PNone"

section \<open>The log handler\<close>

text \<open>
  A log record as \<open>emit\<close> reads it: \<open>args\<close> is \<open>None\<close>, a tuple or a dictionary, and
  \<open>__dict__\<close> holds the text attributes that the caller attached. \<open>d[key]\<close> raises
  \<open>KeyError\<close> when the key is missing.
\<close>

datatype logargs = ArgsNone | ArgsTuple "pyval list" | ArgsDict "(pystr \<times> pyval) list"

record LogRecord =
  args :: logargs
  record_dict :: "(pystr \<times> pystr) list"

definition getitem :: "(pystr \<times> pystr) list \<Rightarrow> pystr \<Rightarrow> py_error + pystr" where
  "getitem d key = (case map_of d key of None \<Rightarrow> Inl KeyError | Some v \<Rightarrow> Inr v)"

text \<open>
  \<open>LspHandler.emit\<close>. \<open>handle_message\<close> is the method a subclass overrides; it is a
  parameter that transforms the handler's state \<open>h\<close>. An exception leaves \<open>emit\<close> before
  \<open>handle_message\<close> is called.
\<close>

definition emit ::
  "(pystr \<Rightarrow> datetime option) \<Rightarrow> (LspMessage \<Rightarrow> 'h \<Rightarrow> 'h) \<Rightarrow> LogRecord \<Rightarrow> 'h \<Rightarrow> py_error + 'h" where
  "emit fromisoformat handle_message record h =
     (case args record of
        ArgsDict message \<Rightarrow>
          (case getitem (record_dict record) (str ''Message-Source'') of
             Inl e \<Rightarrow> Inl e
           | Inr source0 \<Rightarrow>
               (case getitem (record_dict record) (str ''Message-Session'') of
                  Inl e \<Rightarrow> Inl e
                | Inr session0 \<Rightarrow>
                    (case getitem (record_dict record) (str ''Message-Timestamp'') of
                       Inl e \<Rightarrow> Inl e
                     | Inr timestamp0 \<Rightarrow>
                         (case from_rpc fromisoformat session0 timestamp0 source0 message of
                            Inl e \<Rightarrow> Inl e
                          | Inr m \<Rightarrow> Inr (handle_message m h)))))
      | _ \<Rightarrow> Inr h)"

text \<open>The base class's \<open>handle_message\<close> does nothing.\<close>

definition handle_message :: "LspMessage \<Rightarrow> 'h \<Rightarrow> 'h" where
  "handle_message m h = h"

text \<open>A subclass that appends every message it is given to a list.\<close>

definition recording_handle_message :: "LspMessage \<Rightarrow> LspMessage list \<Rightarrow> LspMessage list" where
  "recording_handle_message m calls = calls @ [m]"

text \<open>
  A stand-in for \<open>datetime.fromisoformat\<close> on which the model can be run: it knows the
  date \<open>2024-01-01\<close> and refuses every other text.
\<close>

definition sample_fromisoformat :: "pystr \<Rightarrow> datetime option" where
  "sample_fromisoformat t =
     (if t = str ''2024-01-01'' then Some (Datetime 2024 1 1 0 0 0 0 None) else None)"

section \<open>Assignment and comparison\<close>

text \<open>
  The class is declared with \<open>attrs.define\<close> and is not frozen, so a field of a message
  can be assigned after construction; the \<open>__setattr__\<close> that \<open>attrs\<close> generates runs the
  field's converter on the assigned value. An assignment names the field and gives the
  value.
\<close>

datatype assignment =
    SetSession pystr
  | SetTimestamp datetime
  | SetSource pystr
  | SetId pyval
  | SetMethod pyval
  | SetParams pyval
  | SetResult pyval
  | SetError pyval

fun setattr :: "LspMessage \<Rightarrow> assignment \<Rightarrow> LspMessage" where
  "setattr m (SetSession v) = m\<lparr>session := v\<rparr>"
| "setattr m (SetTimestamp v) = m\<lparr>timestamp := v\<rparr>"
| "setattr m (SetSource v) = m\<lparr>source := v\<rparr>"
| "setattr m (SetId v) = m\<lparr>id' := v\<rparr>"
| "setattr m (SetMethod v) = m\<lparr>method' := v\<rparr>"
| "setattr m (SetParams v) = m\<lparr>params := maybe_json v\<rparr>"
| "setattr m (SetResult v) = m\<lparr>result := maybe_json v\<rparr>"
| "setattr m (SetError v) = m\<lparr>error := maybe_json v\<rparr>"


fun nan_free :: "pyval \<Rightarrow> bool"
  and nan_free_items :: "pyval list \<Rightarrow> bool"
  and nan_free_pairs :: "(pystr \<times> pyval) list \<Rightarrow> bool"
where
  "nan_free PNone = True"
| "nan_free (PBool b) = True"
| "nan_free (PInt i) = True"
| "nan_free (PFloat lit) = (lit \<noteq> str ''NaN'')"
| "nan_free (PStr s) = True"
| "nan_free (PList vs) = nan_free_items vs"
| "nan_free (PDict ps) = nan_free_pairs ps"
| "nan_free_items [] = True"
| "nan_free_items (v # vs) = (nan_free v \<and> nan_free_items vs)"
| "nan_free_pairs [] = True"
| "nan_free_pairs ((k, v) # ps) = (nan_free v \<and> nan_free_pairs ps)"





section \<open>Re-encoding\<close>

text \<open>
  The specification's idempotence property re-encodes the fields of a parsed message. The
  source holds no encoder; the encoder taken here is \<open>json.dumps\<close> of the standard
  library with its default settings, modelled after \<open>json/encoder.py\<close>.
\<close>

text \<open>\<open>'{0:04x}'.format(n)\<close> for \<open>n\<close> below \<open>0x10000\<close>.\<close>

definition hexchar :: "nat \<Rightarrow> nat" where
  "hexchar d = (if d < 10 then 0x30 + d else 0x57 + d)"

definition hex4 :: "nat \<Rightarrow> pystr" where
  "hex4 n = [hexchar (n div 4096 mod 16), hexchar (n div 256 mod 16), hexchar (n div 16 mod 16), hexchar (n mod 16)]"

text \<open>
  \<open>py_encode_basestring_ascii\<close>: backslash, quote and every character outside
  \<open>' '..'~'\<close> is replaced, by its short escape if it has one, else by \<open>\uXXXX\<close>, a
  character above \<open>0xFFFF\<close> by the escapes of its surrogate pair.
\<close>

definition escape_char :: "nat \<Rightarrow> pystr" where
  "escape_char c =
     (if c = 0x5C then [0x5C, 0x5C]
      else if c = 0x22 then [0x5C, 0x22]
      else if c = 0x08 then [0x5C, 0x62]
      else if c = 0x0C then [0x5C, 0x66]
      else if c = 0x0A then [0x5C, 0x6E]
      else if c = 0x0D then [0x5C, 0x72]
      else if c = 0x09 then [0x5C, 0x74]
      else if 0x20 \<le> c \<and> c \<le> 0x7E then [c]
      else if c < 0x10000 then [0x5C, 0x75] @ hex4 c
      else
        (let n = c - 0x10000;
             s1 = or 0xD800 (and (drop_bit 10 n) 0x3FF);
             s2 = or 0xDC00 (and n 0x3FF)
         in [0x5C, 0x75] @ hex4 s1 @ [0x5C, 0x75] @ hex4 s2))"

definition encode_basestring_ascii :: "pystr \<Rightarrow> pystr" where
  "encode_basestring_ascii s = 0x22 # concat (map escape_char s) @ [0x22]"

text \<open>\<open>int.__repr__\<close>: decimal digits, with a minus sign for a negative number.\<close>

fun nat_repr :: "nat \<Rightarrow> pystr" where
  "nat_repr n = (if n < 10 then [0x30 + n] else nat_repr (n div 10) @ [0x30 + n mod 10])"

declare nat_repr.simps [simp del]

definition int_repr :: "int \<Rightarrow> pystr" where
  "int_repr i = (if i < 0 then 0x2D # nat_repr (nat (- i)) else nat_repr (nat i))"

text \<open>
  \<open>JSONEncoder.iterencode\<close> with the default separators \<open>', '\<close> and \<open>': '\<close>. The text
  of a float is what \<open>floatstr\<close> of \<open>json/encoder.py\<close> returns: \<open>float.__repr__\<close>, or the
  name of the constant for \<open>NaN\<close> and the infinities. It is a matter of floating point
  arithmetic, so \<open>floatstr\<close> is a parameter; it is given the numeral that the model
  carries for the float.
\<close>

fun json_dumps :: "(pystr \<Rightarrow> pystr) \<Rightarrow> pyval \<Rightarrow> pystr"
  and dumps_items :: "(pystr \<Rightarrow> pystr) \<Rightarrow> pyval list \<Rightarrow> pystr"
  and dumps_pairs :: "(pystr \<Rightarrow> pystr) \<Rightarrow> (pystr \<times> pyval) list \<Rightarrow> pystr"
where
  "json_dumps floatstr PNone = str ''null''"
| "json_dumps floatstr (PBool b) = (if b then str ''true'' else str ''false'')"
| "json_dumps floatstr (PInt i) = int_repr i"
| "json_dumps floatstr (PFloat lit) = floatstr lit"
| "json_dumps floatstr (PStr s) = encode_basestring_ascii s"
| "json_dumps floatstr (PList vs) =
     (if vs = [] then str ''[]'' else 0x5B # dumps_items floatstr vs @ [0x5D])"
| "json_dumps floatstr (PDict ps) =
     (if ps = [] then str ''{}'' else 0x7B # dumps_pairs floatstr ps @ [0x7D])"
| "dumps_items floatstr [] = []"
| "dumps_items floatstr [v] = json_dumps floatstr v"
| "dumps_items floatstr (v # w # vs) =
     json_dumps floatstr v @ str '', '' @ dumps_items floatstr (w # vs)"
| "dumps_pairs floatstr [] = []"
| "dumps_pairs floatstr [(k, v)] = encode_basestring_ascii k @ str '': '' @ json_dumps floatstr v"
| "dumps_pairs floatstr ((k, v) # p # ps) =
     encode_basestring_ascii k @ str '': '' @ json_dumps floatstr v @ str '', '' @
       dumps_pairs floatstr (p # ps)"

text \<open>
  A stand-in for \<open>floatstr\<close> on which the model can be run: it writes the numeral it is
  given (for \<open>NaN\<close> that is what \<open>floatstr\<close> writes).
\<close>

definition sample_floatstr :: "pystr \<Rightarrow> pystr" where
  "sample_floatstr lit = lit"

text \<open>
  A well-formed value: every code point of its strings is below \<open>0x110000\<close>, no high
  surrogate stands directly before a low surrogate (the encoder would write the two as
  the escapes of one character), and the keys of a dictionary are distinct.
\<close>

definition is_high :: "nat \<Rightarrow> bool" where
  "is_high c \<longleftrightarrow> 0xD800 \<le> c \<and> c \<le> 0xDBFF"

definition is_low :: "nat \<Rightarrow> bool" where
  "is_low c \<longleftrightarrow> 0xDC00 \<le> c \<and> c \<le> 0xDFFF"

fun str_ok :: "pystr \<Rightarrow> bool" where
  "str_ok [] = True"
| "str_ok [c] = (c < 0x110000)"
| "str_ok (c # d # s) = (c < 0x110000 \<and> \<not> (is_high c \<and> is_low d) \<and> str_ok (d # s))"

fun wellformed :: "pyval \<Rightarrow> bool"
  and wellformed_items :: "pyval list \<Rightarrow> bool"
  and wellformed_pairs :: "(pystr \<times> pyval) list \<Rightarrow> bool"
where
  "wellformed PNone = True"
| "wellformed (PBool b) = True"
| "wellformed (PInt i) = True"
| "wellformed (PFloat lit) = True"
| "wellformed (PStr s) = str_ok s"
| "wellformed (PList vs) = wellformed_items vs"
| "wellformed (PDict ps) = (distinct (map fst ps) \<and> wellformed_pairs ps)"
| "wellformed_items [] = True"
| "wellformed_items (v # vs) = (wellformed v \<and> wellformed_items vs)"
| "wellformed_pairs [] = True"
| "wellformed_pairs ((k, v) # ps) = (str_ok k \<and> wellformed v \<and> wellformed_pairs ps)"

text \<open>A value that holds no float, at any depth.\<close>

fun float_free :: "pyval \<Rightarrow> bool"
  and float_free_items :: "pyval list \<Rightarrow> bool"
  and float_free_pairs :: "(pystr \<times> pyval) list \<Rightarrow> bool"
where
  "float_free PNone = True"
| "float_free (PBool b) = True"
| "float_free (PInt i) = True"
| "float_free (PFloat lit) = False"
| "float_free (PStr s) = True"
| "float_free (PList vs) = float_free_items vs"
| "float_free (PDict ps) = float_free_pairs ps"
| "float_free_items [] = True"
| "float_free_items (v # vs) = (float_free v \<and> float_free_items vs)"
| "float_free_pairs [] = True"
| "float_free_pairs ((k, v) # ps) = (float_free v \<and> float_free_pairs ps)"

text \<open>
  The values for which decoding the encoder's output is shown to give the value back:
  the well-formed values that hold no float.
\<close>

fun encodable :: "pyval \<Rightarrow> bool"
  and encodable_items :: "pyval list \<Rightarrow> bool"
  and encodable_pairs :: "(pystr \<times> pyval) list \<Rightarrow> bool"
where
  "encodable PNone = True"
| "encodable (PBool b) = True"
| "encodable (PInt i) = True"
| "encodable (PFloat lit) = False"
| "encodable (PStr s) = str_ok s"
| "encodable (PList vs) = encodable_items vs"
| "encodable (PDict ps) = (distinct (map fst ps) \<and> encodable_pairs ps)"
| "encodable_items [] = True"
| "encodable_items (v # vs) = (encodable v \<and> encodable_items vs)"
| "encodable_pairs [] = True"
| "encodable_pairs ((k, v) # ps) = (str_ok k \<and> encodable v \<and> encodable_pairs ps)"

text \<open>
  A raw field value as the specification describes it: a text of Unicode scalar values
  (no surrogate code points), or structured data, which is a well-formed value.
\<close>

definition scalar :: "nat \<Rightarrow> bool" where
  "scalar c \<longleftrightarrow> c < 0x110000 \<and> \<not> (0xD800 \<le> c \<and> c \<le> 0xDFFF)"

definition valid_raw :: "pyval \<Rightarrow> bool" where
  "valid_raw v \<longleftrightarrow> (case v of PStr s \<Rightarrow> list_all scalar s | _ \<Rightarrow> wellformed v)"

text \<open>What may follow a value in the encoder's output: nothing, a comma or a closing bracket.\<close>

definition delim :: "pystr \<Rightarrow> bool" where
  "delim t \<longleftrightarrow> (case t of [] \<Rightarrow> True | c # u \<Rightarrow> c = 0x2C \<or> c = 0x5D \<or> c = 0x7D)"

text \<open>
  \<open>no_low_escape\<close>: the text after a high surrogate escape does not start with the escape
  of a low surrogate (and no broken escape either), so the decoder leaves the high
  surrogate alone. \<open>low_escape\<close>: the text starts with the escape of a low surrogate.
\<close>

definition no_low_escape :: "pystr \<Rightarrow> bool" where
  "no_low_escape t \<longleftrightarrow>
     (take 2 t = [0x5C, 0x75] \<longrightarrow>
        (case decode_uXXXX (drop 2 t) of Some u \<Rightarrow> \<not> is_low u | None \<Rightarrow> False))"

definition low_escape :: "pystr \<Rightarrow> bool" where
  "low_escape t \<longleftrightarrow>
     take 2 t = [0x5C, 0x75] \<and>
     (case decode_uXXXX (drop 2 t) of Some u \<Rightarrow> is_low u | None \<Rightarrow> False)"

text \<open>
  The serialized raw form of a parsed message: \<open>id\<close> and \<open>method\<close> as they are (\<open>from_rpc\<close>
  does not decode them), \<open>params\<close>, \<open>result\<close> and \<open>error\<close> encoded as JSON text.
\<close>

definition reencode :: "(pystr \<Rightarrow> pystr) \<Rightarrow> LspMessage \<Rightarrow> (pystr \<times> pyval) list" where
  "reencode floatstr m =
     [(str ''id'', id' m), (str ''method'', method' m),
      (str ''params'', PStr (json_dumps floatstr (params m))),
      (str ''result'', PStr (json_dumps floatstr (result m))),
      (str ''error'', PStr (json_dumps floatstr (error m)))]"


section \<open>Running the decoder\<close>

lemmas scan_once_numeral =
  scan_once.simps(2,3) [of "pred_numeral k", folded numeral_eq_Suc] for k

lemmas array_loop_numeral =
  array_loop.simps(2) [of "pred_numeral k", folded numeral_eq_Suc] for k

lemmas object_loop_numeral =
  object_loop.simps(2) [of "pred_numeral k", folded numeral_eq_Suc] for k

lemmas run_decoder =
  json_loads_def json_decode_def str_def skip_ws_def is_ws_def is_digit_def
  scan_once_numeral array_loop_numeral object_loop_numeral
  match_number_def match_integer_def match_frac_def match_exp_def
  parse_int_def digits_value_def dict_of_pairs_def BACKSLASH_def hex_digit_def

lemma loads_null: "json_loads (PStr (str ''null'')) = Inr PNone"
  by (simp add: run_decoder)

lemma maybe_json_null: "maybe_json (PStr (str ''null'')) = PNone"
  by (simp add: maybe_json_def loads_null)


lemma dict_get_empty: "dict_get [] key = PNone"
  by (simp add: dict_get_def)

lemma maybe_json_not_text: "\<forall>x. v \<noteq> PStr x \<Longrightarrow> maybe_json v = v"
  by (cases v) (simp_all add: maybe_json_def json_loads_def)

lemma maybe_json_None: "maybe_json PNone = PNone"
  by (simp add: maybe_json_not_text)

section \<open>Classification\<close>

text \<open>
  C1. The three predicates follow the table: \<open>is_request\<close> holds exactly when \<open>id\<close> and
  \<open>params\<close> are present (not \<open>None\<close>), \<open>is_response\<close> exactly when \<open>id\<close> is present and
  \<open>result\<close> or \<open>error\<close> is present, \<open>is_notification\<close> exactly when \<open>id\<close> is absent and
  \<open>params\<close> is present. This holds for every message, so for every constructed one.
\<close>

theorem classification_table:
  "(is_request m \<longleftrightarrow> id' m \<noteq> PNone \<and> params m \<noteq> PNone) \<and>
   (is_response m \<longleftrightarrow> id' m \<noteq> PNone \<and> (result m \<noteq> PNone \<or> error m \<noteq> PNone)) \<and>
   (is_notification m \<longleftrightarrow> id' m = PNone \<and> params m \<noteq> PNone)"
  by (simp add: is_request_def is_response_def is_notification_def)

theorem classification_table_witness:
  "is_request (LspMessage_init (str ''s'') (Datetime 2024 1 1 0 0 0 0 None) (str ''client'')
      (PStr (str ''1'')) (PStr (str ''initialize'')) (PStr (str ''[]'')) PNone PNone) \<and>
   \<not> is_response (LspMessage_init (str ''s'') (Datetime 2024 1 1 0 0 0 0 None) (str ''client'')
      (PStr (str ''1'')) (PStr (str ''initialize'')) (PStr (str ''[]'')) PNone PNone) \<and>
   \<not> is_notification (LspMessage_init (str ''s'') (Datetime 2024 1 1 0 0 0 0 None) (str ''client'')
      (PStr (str ''1'')) (PStr (str ''initialize'')) (PStr (str ''[]'')) PNone PNone)"
  using classification_table [of "LspMessage_init (str ''s'') (Datetime 2024 1 1 0 0 0 0 None)
      (str ''client'') (PStr (str ''1'')) (PStr (str ''initialize'')) (PStr (str ''[]'')) PNone PNone"]
  by (simp add: LspMessage_init_def maybe_json_None maybe_json_def run_decoder)

text \<open>
  C3. A message whose \<open>params\<close>, \<open>result\<close> and \<open>error\<close> are all absent is neither a
  request nor a response nor a notification; the predicates are total, so evaluating them
  cannot fail.
\<close>

theorem no_payload_no_class:
  "params m = PNone \<Longrightarrow> result m = PNone \<Longrightarrow> error m = PNone \<Longrightarrow>
     \<not> is_request m \<and> \<not> is_response m \<and> \<not> is_notification m"
  by (simp add: is_request_def is_response_def is_notification_def)

theorem no_payload_no_class_witness:
  "\<not> is_request (LspMessage_init [] (Datetime 2024 1 1 0 0 0 0 None) (str ''server'')
       (PInt 7) PNone PNone PNone PNone) \<and>
   \<not> is_response (LspMessage_init [] (Datetime 2024 1 1 0 0 0 0 None) (str ''server'')
       (PInt 7) PNone PNone PNone PNone) \<and>
   \<not> is_notification (LspMessage_init [] (Datetime 2024 1 1 0 0 0 0 None) (str ''server'')
       (PInt 7) PNone PNone PNone PNone)"
  using no_payload_no_class [of "LspMessage_init [] (Datetime 2024 1 1 0 0 0 0 None) (str ''server'')
       (PInt 7) PNone PNone PNone PNone"]
  by (simp add: LspMessage_init_def maybe_json_None)

section \<open>Construction\<close>

text \<open>
  C4. When the timestamp text cannot be parsed, \<open>from_rpc\<close> fails with \<open>ValueError\<close> and no
  message is built; when it can, a message is built and its timestamp is the parsed
  point in time.
\<close>

theorem from_rpc_timestamp:
  "(fromisoformat t = None \<longrightarrow> from_rpc fromisoformat s t src raw = Inl ValueError) \<and>
   (\<forall>d. fromisoformat t = Some d \<longrightarrow>
      (\<exists>m. from_rpc fromisoformat s t src raw = Inr m \<and> timestamp m = d))"
  by (simp add: from_rpc_def LspMessage_init_def)

theorem from_rpc_timestamp_witness:
  "from_rpc sample_fromisoformat (str ''s'') (str ''yesterday'') (str ''client'') [] = Inl ValueError \<and>
   map_sum id timestamp
     (from_rpc sample_fromisoformat (str ''s'') (str ''2024-01-01'') (str ''client'') [])
     = Inr (Datetime 2024 1 1 0 0 0 0 None)"
  using from_rpc_timestamp [of sample_fromisoformat "str ''yesterday''" "str ''s''" "str ''client''" "[]"]
    from_rpc_timestamp [of sample_fromisoformat "str ''2024-01-01''" "str ''s''" "str ''client''" "[]"]
  by (auto simp add: sample_fromisoformat_def str_def)

text \<open>
  C8. \<open>from_rpc\<close> does not look at the source tag: whenever the timestamp parses,
  construction succeeds for every text given as source, and the message's \<open>source\<close> is
  that text.
\<close>

theorem from_rpc_source_verbatim:
  "fromisoformat t = Some d \<Longrightarrow>
     \<exists>m. from_rpc fromisoformat s t src raw = Inr m \<and> source m = src"
  by (simp add: from_rpc_def LspMessage_init_def)

theorem from_rpc_source_verbatim_witness:
  "map_sum id source
     (from_rpc sample_fromisoformat (str ''s'') (str ''2024-01-01'') (str ''proxy'') [])
     = Inr (str ''proxy'')"
  using from_rpc_source_verbatim [of sample_fromisoformat "str ''2024-01-01''"
      "Datetime 2024 1 1 0 0 0 0 None" "str ''s''" "str ''proxy''" "[]"]
  by (auto simp add: sample_fromisoformat_def)

text \<open>
  C9. A payload text that decodes to \<open>null\<close> becomes absent. If the raw \<open>params\<close> is the
  text \<open>null\<close>, the message's \<open>params\<close> is \<open>None\<close> and the message is neither a request nor
  a notification, whatever its \<open>id\<close>. If the raw \<open>result\<close> (or \<open>error\<close>) is the text
  \<open>null\<close>, the field is \<open>None\<close> and \<open>is_response\<close> depends on \<open>id\<close> and the other field
  alone.
\<close>

theorem null_text_is_absent:
  "from_rpc fromisoformat s t src raw = Inr m \<Longrightarrow>
     (map_of raw (str ''params'') = Some (PStr (str ''null'')) \<longrightarrow>
        params m = PNone \<and> \<not> is_request m \<and> \<not> is_notification m) \<and>
     (map_of raw (str ''result'') = Some (PStr (str ''null'')) \<longrightarrow>
        result m = PNone \<and> (is_response m \<longleftrightarrow> id' m \<noteq> PNone \<and> error m \<noteq> PNone)) \<and>
     (map_of raw (str ''error'') = Some (PStr (str ''null'')) \<longrightarrow>
        error m = PNone \<and> (is_response m \<longleftrightarrow> id' m \<noteq> PNone \<and> result m \<noteq> PNone))"
  by (auto simp add: from_rpc_def LspMessage_init_def dict_get_def maybe_json_null
        is_request_def is_response_def is_notification_def split: option.splits)


theorem null_text_is_absent_witness:
  "params (LspMessage_init (str ''s'') (Datetime 2024 1 1 0 0 0 0 None) (str ''client'')
      (PInt 1) PNone (PStr (str ''null'')) PNone PNone) = PNone \<and>
   \<not> is_request (LspMessage_init (str ''s'') (Datetime 2024 1 1 0 0 0 0 None) (str ''client'')
      (PInt 1) PNone (PStr (str ''null'')) PNone PNone) \<and>
   \<not> is_notification (LspMessage_init (str ''s'') (Datetime 2024 1 1 0 0 0 0 None) (str ''client'')
      (PInt 1) PNone (PStr (str ''null'')) PNone PNone)"
  using null_text_is_absent [of sample_fromisoformat "str ''s''" "str ''2024-01-01''" "str ''client''"
      "[(str ''id'', PInt 1), (str ''params'', PStr (str ''null''))]"
      "LspMessage_init (str ''s'') (Datetime 2024 1 1 0 0 0 0 None) (str ''client'')
         (PInt 1) PNone (PStr (str ''null'')) PNone PNone"]
  by (simp add: from_rpc_def sample_fromisoformat_def dict_get_def str_def)



section \<open>The handler\<close>

text \<open>
  C10, as the claim states it, fails: a record whose \<open>args\<close> is a dictionary but which
  lacks the \<open>Message-Source\<close> attribute makes \<open>emit\<close> raise \<open>KeyError\<close>, and one whose
  timestamp does not parse makes it raise \<open>ValueError\<close>; in both cases \<open>handle_message\<close>
  is not invoked (the recording handler's list stays out of reach, the result is the
  error).
\<close>

theorem emit_once_counterexample:
  "emit sample_fromisoformat recording_handle_message
     \<lparr>args = ArgsDict [(str ''id'', PInt 1)], record_dict = []\<rparr> [] = Inl KeyError \<and>
   emit sample_fromisoformat recording_handle_message
     \<lparr>args = ArgsDict [(str ''id'', PInt 1)],
      record_dict = [(str ''Message-Source'', str ''client''), (str ''Message-Session'', str ''s''),
                     (str ''Message-Timestamp'', str ''yesterday'')]\<rparr> [] = Inl ValueError"
  by (simp add: emit_def getitem_def from_rpc_def sample_fromisoformat_def str_def)

text \<open>
  C10, amended. When \<open>args\<close> is not a dictionary, \<open>emit\<close> returns without invoking
  \<open>handle_message\<close> and without raising. When \<open>args\<close> is a dictionary, the record carries
  the three attributes and the timestamp parses, \<open>emit\<close> invokes \<open>handle_message\<close> exactly
  once, with the message that \<open>from_rpc\<close> builds from the record. When \<open>args\<close> is a
  dictionary and an attribute is missing or the timestamp does not parse, \<open>emit\<close> raises
  and \<open>handle_message\<close> is not invoked.
\<close>

theorem emit_handles_message:
  "((\<forall>message. args record \<noteq> ArgsDict message) \<longrightarrow> emit fromisoformat hm record h = Inr h) \<and>
   (args record = ArgsDict message \<and>
    map_of (record_dict record) (str ''Message-Source'') = Some src \<and>
    map_of (record_dict record) (str ''Message-Session'') = Some s \<and>
    map_of (record_dict record) (str ''Message-Timestamp'') = Some t \<and>
    fromisoformat t = Some d \<longrightarrow>
      (\<exists>m. from_rpc fromisoformat s t src message = Inr m \<and>
           emit fromisoformat hm record h = Inr (hm m h))) \<and>
   (args record = ArgsDict message \<and>
    (map_of (record_dict record) (str ''Message-Source'') = None \<or>
     map_of (record_dict record) (str ''Message-Session'') = None \<or>
     map_of (record_dict record) (str ''Message-Timestamp'') = None) \<longrightarrow>
      emit fromisoformat hm record h = Inl KeyError) \<and>
   (args record = ArgsDict message \<and>
    map_of (record_dict record) (str ''Message-Source'') = Some src \<and>
    map_of (record_dict record) (str ''Message-Session'') = Some s \<and>
    map_of (record_dict record) (str ''Message-Timestamp'') = Some t \<and>
    fromisoformat t = None \<longrightarrow>
      emit fromisoformat hm record h = Inl ValueError)"
proof (intro conjI impI)
  assume "\<forall>message. args record \<noteq> ArgsDict message"
  then show "emit fromisoformat hm record h = Inr h"
    by (cases "args record") (simp_all add: emit_def)
next
  assume "args record = ArgsDict message \<and>
    map_of (record_dict record) (str ''Message-Source'') = Some src \<and>
    map_of (record_dict record) (str ''Message-Session'') = Some s \<and>
    map_of (record_dict record) (str ''Message-Timestamp'') = Some t \<and>
    fromisoformat t = Some d"
  then show "\<exists>m. from_rpc fromisoformat s t src message = Inr m \<and>
           emit fromisoformat hm record h = Inr (hm m h)"
    by (simp add: emit_def getitem_def from_rpc_def)
next
  assume "args record = ArgsDict message \<and>
    (map_of (record_dict record) (str ''Message-Source'') = None \<or>
     map_of (record_dict record) (str ''Message-Session'') = None \<or>
     map_of (record_dict record) (str ''Message-Timestamp'') = None)"
  then show "emit fromisoformat hm record h = Inl KeyError"
    by (auto simp add: emit_def getitem_def split: option.splits)
next
  assume "args record = ArgsDict message \<and>
    map_of (record_dict record) (str ''Message-Source'') = Some src \<and>
    map_of (record_dict record) (str ''Message-Session'') = Some s \<and>
    map_of (record_dict record) (str ''Message-Timestamp'') = Some t \<and>
    fromisoformat t = None"
  then show "emit fromisoformat hm record h = Inl ValueError"
    by (simp add: emit_def getitem_def from_rpc_def)
qed

theorem emit_handles_message_witness:
  "emit sample_fromisoformat recording_handle_message
     \<lparr>args = ArgsTuple [PInt 1], record_dict = []\<rparr> [] = Inr [] \<and>
   emit sample_fromisoformat recording_handle_message
     \<lparr>args = ArgsDict [(str ''id'', PInt 1)],
      record_dict = [(str ''Message-Source'', str ''client''), (str ''Message-Session'', str ''s''),
                     (str ''Message-Timestamp'', str ''2024-01-01'')]\<rparr> []
     = Inr [LspMessage_init (str ''s'') (Datetime 2024 1 1 0 0 0 0 None) (str ''client'')
              (PInt 1) PNone PNone PNone PNone]"
  using emit_handles_message [of "\<lparr>args = ArgsTuple [PInt 1], record_dict = []\<rparr>"
      sample_fromisoformat recording_handle_message "[]"]
    emit_handles_message [of "\<lparr>args = ArgsDict [(str ''id'', PInt 1)],
      record_dict = [(str ''Message-Source'', str ''client''), (str ''Message-Session'', str ''s''),
                     (str ''Message-Timestamp'', str ''2024-01-01'')]\<rparr>"
      sample_fromisoformat recording_handle_message "[]" "[(str ''id'', PInt 1)]"
      "str ''client''" "str ''s''" "str ''2024-01-01''" "Datetime 2024 1 1 0 0 0 0 None"]
  by (simp add: sample_fromisoformat_def from_rpc_def dict_get_def recording_handle_message_def str_def)


section \<open>Assignment\<close>

text \<open>
  C5, as the claim states it, fails: a message is not immutable. Assigning the text
  \<open>[1]\<close> to \<open>params\<close> of a constructed message whose \<open>params\<close> is absent leaves the
  message with the list \<open>[1]\<close> as \<open>params\<close>.
\<close>

theorem immutable_counterexample:
  "params (LspMessage_init (str ''s'') (Datetime 2024 1 1 0 0 0 0 None) (str ''client'')
      (PInt 1) PNone PNone PNone PNone) = PNone \<and>
   params (setattr (LspMessage_init (str ''s'') (Datetime 2024 1 1 0 0 0 0 None) (str ''client'')
      (PInt 1) PNone PNone PNone PNone) (SetParams (PStr (str ''[1]'')))) = PList [PInt 1]"
  by (simp add: LspMessage_init_def maybe_json_None maybe_json_def run_decoder)

text \<open>
  C5, amended. An assignment to a field of a constructed message replaces that field:
  \<open>session\<close>, \<open>timestamp\<close>, \<open>source\<close>, \<open>id\<close> and \<open>method\<close> by the assigned value, \<open>params\<close>,
  \<open>result\<close> and \<open>error\<close> by what \<open>maybe_json\<close> makes of it; the other seven fields stay
  as they were.
\<close>

theorem assignment_replaces_one_field:
  "session (setattr m a) = (case a of SetSession v \<Rightarrow> v | _ \<Rightarrow> session m) \<and>
   timestamp (setattr m a) = (case a of SetTimestamp v \<Rightarrow> v | _ \<Rightarrow> timestamp m) \<and>
   source (setattr m a) = (case a of SetSource v \<Rightarrow> v | _ \<Rightarrow> source m) \<and>
   id' (setattr m a) = (case a of SetId v \<Rightarrow> v | _ \<Rightarrow> id' m) \<and>
   method' (setattr m a) = (case a of SetMethod v \<Rightarrow> v | _ \<Rightarrow> method' m) \<and>
   params (setattr m a) = (case a of SetParams v \<Rightarrow> maybe_json v | _ \<Rightarrow> params m) \<and>
   result (setattr m a) = (case a of SetResult v \<Rightarrow> maybe_json v | _ \<Rightarrow> result m) \<and>
   error (setattr m a) = (case a of SetError v \<Rightarrow> maybe_json v | _ \<Rightarrow> error m)"
  by (cases a) simp_all

theorem assignment_replaces_one_field_witness:
  "result (setattr (LspMessage_init (str ''s'') (Datetime 2024 1 1 0 0 0 0 None) (str ''server'')
      (PInt 1) PNone PNone (PStr (str ''true'')) PNone) (SetResult (PStr (str ''null'')))) = PNone \<and>
   id' (setattr (LspMessage_init (str ''s'') (Datetime 2024 1 1 0 0 0 0 None) (str ''server'')
      (PInt 1) PNone PNone (PStr (str ''true'')) PNone) (SetResult (PStr (str ''null'')))) = PInt 1 \<and>
   source (setattr (LspMessage_init (str ''s'') (Datetime 2024 1 1 0 0 0 0 None) (str ''server'')
      (PInt 1) PNone PNone (PStr (str ''true'')) PNone) (SetResult (PStr (str ''null''))))
     = str ''server''"
  using assignment_replaces_one_field [of
      "LspMessage_init (str ''s'') (Datetime 2024 1 1 0 0 0 0 None) (str ''server'')
         (PInt 1) PNone PNone (PStr (str ''true'')) PNone"
      "SetResult (PStr (str ''null''))"]
  by (simp add: LspMessage_init_def maybe_json_null)

section \<open>Equal inputs\<close>









section \<open>Decoding what the encoder wrote\<close>

subsection \<open>Strings\<close>

lemma hex_digit_hexchar: "d < 16 \<Longrightarrow> hex_digit (hexchar d) = Some d"
  by (simp add: hexchar_def hex_digit_def)

lemma hex4_value:
  "n < 65536 \<Longrightarrow>
     ((n div 4096 mod 16 * 16 + n div 256 mod 16) * 16 + n div 16 mod 16) * 16 + n mod 16 = (n::nat)"
proof -
  assume n: "n < 65536"
  have a: "n div 256 = n div 16 div 16"
    by (simp add: div_mult2_eq)
  have b: "n div 4096 = n div 16 div 16 div 16"
    by (simp add: div_mult2_eq)
  have c: "n div 16 div 16 div 16 < 16"
    using n by simp
  have d: "m div 16 * 16 + m mod 16 = m" for m :: nat
    by simp
  show ?thesis
    by (simp only: a b mod_less [OF c] d)
qed

lemma decode_hex4:
  assumes "n < 65536"
  shows "decode_uXXXX (hex4 n @ r) = Some n"
proof -
  have "decode_uXXXX (hex4 n @ r) =
      Some (((n div 4096 mod 16 * 16 + n div 256 mod 16) * 16 + n div 16 mod 16) * 16 + n mod 16)"
    by (simp add: hex4_def hex_digit_hexchar)
  then show ?thesis
    by (simp only: hex4_value [OF assms])
qed

lemma or_push_bit:
  fixes a b :: nat
  assumes "b < 1024"
  shows "or (push_bit 10 a) b = a * 1024 + b"
proof -
  have b: "take_bit 10 b = b"
    using assms by (simp add: take_bit_nat_eq_self)
  have "and (push_bit 10 a) (take_bit 10 b) = 0"
    by (rule bit_eqI) (auto simp add: bit_simps)
  then have "push_bit 10 a + b = or (push_bit 10 a) b"
    using disjunctive_add_eq_or [of "push_bit 10 a" b] b by simp
  then show ?thesis
    by (simp add: push_bit_eq_mult)
qed

lemma and_1023: "and x (1023::nat) = x mod 1024"
proof -
  have "and x (mask 10) = x mod 2 ^ 10"
    by (simp only: take_bit_eq_mask [symmetric] take_bit_eq_mod)
  then show ?thesis
    by (simp add: mask_eq_exp_minus_1)
qed

lemma high_surrogate:
  fixes n :: nat
  assumes "n < 0x100000"
  shows "or 0xD800 (and (drop_bit 10 n) 0x3FF) = 0xD800 + n div 1024"
proof -
  have "(0xD800::nat) = push_bit 10 54"
    by (simp add: push_bit_eq_mult)
  moreover have "and (drop_bit 10 n) 0x3FF = n div 1024"
    using assms by (simp add: and_1023 drop_bit_eq_div)
  moreover have "n div 1024 < 1024"
    using assms by simp
  ultimately show ?thesis
    using or_push_bit [of "n div 1024" 54] by simp
qed

lemma low_surrogate:
  fixes n :: nat
  shows "or 0xDC00 (and n 0x3FF) = 0xDC00 + n mod 1024"
proof -
  have "(0xDC00::nat) = push_bit 10 55"
    by (simp add: push_bit_eq_mult)
  then show ?thesis
    using or_push_bit [of "n mod 1024" 55] by (simp add: and_1023)
qed

lemma hex4_length: "length (hex4 n) = 4"
  by (simp add: hex4_def)

lemma scan_escape_char:
  assumes "c < 0x110000" and "is_high c \<longrightarrow> no_low_escape t"
  shows "scanstring acc (escape_char c @ t) = scanstring (acc @ [c]) t"
proof -
  consider (short) "c = 0x5C \<or> c = 0x22 \<or> c = 0x08 \<or> c = 0x0C \<or> c = 0x0A \<or> c = 0x0D \<or> c = 0x09"
    | (plain) "0x20 \<le> c" "c \<le> 0x7E" "c \<noteq> 0x5C" "c \<noteq> 0x22"
    | (bmp) "c < 0x20 \<or> 0x7E < c" "c < 0x10000" "c \<noteq> 0x08" "c \<noteq> 0x0C" "c \<noteq> 0x0A" "c \<noteq> 0x0D" "c \<noteq> 0x09"
    | (astral) "0x10000 \<le> c"
    by linarith
  then show ?thesis
  proof cases
    case short
    then show ?thesis
      by (auto simp add: escape_char_def BACKSLASH_def)
  next
    case plain
    then show ?thesis
      by (simp add: escape_char_def)
  next
    case bmp
    then have e: "escape_char c = [0x5C, 0x75] @ hex4 c"
      by (auto simp add: escape_char_def)
    have d: "decode_uXXXX (hex4 c @ t) = Some c"
      using bmp by (simp add: decode_hex4)
    have dr: "drop 4 (hex4 c @ t) = t"
      by (simp add: hex4_length)
    show ?thesis
    proof (cases "is_high c \<and> take 2 t = [0x5C, 0x75]")
      case True
      with assms obtain u where u: "decode_uXXXX (drop 2 t) = Some u" "\<not> is_low u"
        by (auto simp add: no_low_escape_def split: option.splits)
      have d6: "drop 6 (hex4 c @ t) = drop 2 t"
        by (simp add: hex4_length)
      from True u show ?thesis
        by (auto simp add: e d hex4_length is_high_def is_low_def)
    next
      case False
      then show ?thesis
        by (auto simp add: e d hex4_length is_high_def)
    qed
  next
    case astral
    define n where "n = c - 0x10000"
    have n: "n < 0x100000" "c = 0x10000 + n"
      using astral assms by (simp_all add: n_def)
    define s1 where "s1 = 0xD800 + n div 1024"
    define s2 where "s2 = 0xDC00 + n mod 1024"
    have e: "escape_char c = [0x5C, 0x75] @ hex4 s1 @ [0x5C, 0x75] @ hex4 s2"
      using astral n(1)
      by (simp add: escape_char_def Let_def n_def [symmetric] high_surrogate low_surrogate s1_def s2_def)
    have r1: "0xD800 \<le> s1" "s1 \<le> 0xDBFF" "s1 < 65536"
      using n(1) by (simp_all add: s1_def)
    have r2: "0xDC00 \<le> s2" "s2 \<le> 0xDFFF" "s2 < 65536"
      by (simp_all add: s2_def)
    have d1: "decode_uXXXX (hex4 s1 @ [0x5C, 0x75] @ hex4 s2 @ t) = Some s1"
      using r1 by (simp add: decode_hex4)
    have dr: "drop 4 (hex4 s1 @ [0x5C, 0x75] @ hex4 s2 @ t) = [0x5C, 0x75] @ hex4 s2 @ t"
      by (simp add: hex4_length)
    have d6: "drop 6 (hex4 s1 @ [0x5C, 0x75] @ hex4 s2 @ t) = hex4 s2 @ t"
      by (simp add: hex4_length)
    have d10: "drop 10 (hex4 s1 @ [0x5C, 0x75] @ hex4 s2 @ t) = t"
      by (simp add: hex4_length)
    have d2: "decode_uXXXX (hex4 s2 @ t) = Some s2"
      using r2 by (simp add: decode_hex4)
    have j: "0x10000 + or (push_bit 10 (s1 - 0xD800)) (s2 - 0xDC00) = c"
      using or_push_bit [of "n mod 1024" "n div 1024"] n(2)
      by (simp add: s1_def s2_def)
    show ?thesis
      using r1 r2 by (simp add: e decode_hex4 j hex4_length)
  qed
qed

lemma no_low_escape_quote: "no_low_escape (0x22 # r)"
  by (simp add: no_low_escape_def)

lemma no_low_escape_char:
  assumes "c < 0x110000" and "\<not> is_low c"
  shows "no_low_escape (escape_char c @ t)"
proof -
  consider (short) "c = 0x5C \<or> c = 0x22 \<or> c = 0x08 \<or> c = 0x0C \<or> c = 0x0A \<or> c = 0x0D \<or> c = 0x09"
    | (plain) "0x20 \<le> c" "c \<le> 0x7E" "c \<noteq> 0x5C" "c \<noteq> 0x22"
    | (bmp) "c < 0x20 \<or> 0x7E < c" "c < 0x10000" "c \<noteq> 0x08" "c \<noteq> 0x0C" "c \<noteq> 0x0A" "c \<noteq> 0x0D" "c \<noteq> 0x09"
    | (astral) "0x10000 \<le> c"
    by linarith
  then show ?thesis
  proof cases
    case short
    then show ?thesis
      by (auto simp add: escape_char_def no_low_escape_def)
  next
    case plain
    then show ?thesis
      by (simp add: escape_char_def no_low_escape_def)
  next
    case bmp
    then have e: "escape_char c = [0x5C, 0x75] @ hex4 c"
      by (auto simp add: escape_char_def)
    show ?thesis
      using bmp assms by (simp add: e no_low_escape_def decode_hex4)
  next
    case astral
    define n where "n = c - 0x10000"
    have n: "n < 0x100000"
      using astral assms by (simp add: n_def)
    define s1 where "s1 = 0xD800 + n div 1024"
    have e: "escape_char c = [0x5C, 0x75] @ hex4 s1 @ [0x5C, 0x75] @ hex4 (or 0xDC00 (and n 0x3FF))"
      using astral n
      by (simp add: escape_char_def Let_def n_def [symmetric] high_surrogate s1_def)
    have r1: "s1 < 0xDC00" "s1 < 65536"
      using n by (simp_all add: s1_def)
    show ?thesis
      using r1 by (simp add: e no_low_escape_def decode_hex4 is_low_def)
  qed
qed

lemma scan_escaped:
  "str_ok s \<Longrightarrow>
     scanstring acc (concat (map escape_char s) @ 0x22 # r) = Inr (acc @ s, r)"
proof (induction s arbitrary: acc rule: str_ok.induct)
  case 1
  then show ?case by simp
next
  case (2 c)
  then show ?case
    by (simp add: scan_escape_char no_low_escape_quote)
next
  case (3 c d s)
  from "3.prems" have c: "c < 0x110000" and pair: "\<not> (is_high c \<and> is_low d)" and rest: "str_ok (d # s)"
    by simp_all
  from rest have d: "d < 0x110000"
    by (cases s) simp_all
  have nl: "is_high c \<longrightarrow> no_low_escape (escape_char d @ concat (map escape_char s) @ 0x22 # r)"
    using pair d by (auto intro: no_low_escape_char)
  have "scanstring acc (concat (map escape_char (c # d # s)) @ 0x22 # r)
      = scanstring (acc @ [c]) (concat (map escape_char (d # s)) @ 0x22 # r)"
    using scan_escape_char [OF c, of "escape_char d @ concat (map escape_char s) @ 0x22 # r" acc] nl
    by simp
  also have "\<dots> = Inr ((acc @ [c]) @ d # s, r)"
    using "3.IH" [OF rest] .
  finally show ?case by simp
qed

lemma scan_encoded:
  "str_ok s \<Longrightarrow> scanstring [] (tl (encode_basestring_ascii s) @ r) = Inr (s, r)"
  using scan_escaped [of s "[]" r] by (simp add: encode_basestring_ascii_def)

subsection \<open>Numbers\<close>

lemma digits_delim:
  "delim t \<Longrightarrow> takeWhile is_digit t = [] \<and> dropWhile is_digit t = t"
  by (cases t) (auto simp add: delim_def is_digit_def)

lemma digits_append_delim:
  "delim t \<Longrightarrow>
     takeWhile is_digit (s @ t) = takeWhile is_digit s \<and>
     dropWhile is_digit (s @ t) = dropWhile is_digit s @ t"
  by (induction s) (simp_all add: digits_delim)

lemma match_integer_append:
  "match_integer s = Some (i, r) \<Longrightarrow> delim t \<Longrightarrow> match_integer (s @ t) = Some (i, r @ t)"
  by (cases s; cases "tl s")
    (auto simp add: match_integer_def digits_append_delim digits_delim split: if_splits list.splits)

lemma match_frac_append:
  "delim t \<Longrightarrow> match_frac (s @ t) = (fst (match_frac s), snd (match_frac s) @ t)"
  by (cases s; cases t)
    (auto simp add: match_frac_def digits_append_delim delim_def is_digit_def)

lemma match_exp_append:
  "delim t \<Longrightarrow> match_exp (s @ t) = (fst (match_exp s), snd (match_exp s) @ t)"
  apply (cases s; cases "tl s"; cases t)
  apply (auto simp add: match_exp_def digits_append_delim digits_delim delim_def is_digit_def Let_def split: if_splits)
  done

lemma match_number_append:
  "match_number s = Some (g, r) \<Longrightarrow> delim t \<Longrightarrow> match_number (s @ t) = Some (g, r @ t)"
  by (auto simp add: match_number_def match_integer_append match_frac_append match_exp_append
        split: option.splits prod.splits)

lemma match_integer_parts: "match_integer s = Some (i, r) \<Longrightarrow> s = i @ r"
  by (cases s; cases "tl s")
    (auto simp add: match_integer_def split: if_splits list.splits)

lemma match_frac_parts: "match_frac s = (f, r) \<Longrightarrow> s = f @ r"
  by (cases s) (auto simp add: match_frac_def split: if_splits)

lemma match_exp_parts: "match_exp s = (e, r) \<Longrightarrow> s = e @ r"
  by (cases s; cases "tl s")
    (auto simp add: match_exp_def Let_def split: if_splits list.splits)

lemma match_number_parts: "match_number s = Some ((i, f, e), r) \<Longrightarrow> s = i @ f @ e @ r"
  by (auto simp add: match_number_def split: option.splits prod.splits
        dest!: match_integer_parts match_frac_parts match_exp_parts)

lemma match_number_start: "match_number (c # s) = Some x \<Longrightarrow> c = 0x2D \<or> is_digit c"
  by (auto simp add: match_number_def match_integer_def is_digit_def
        split: option.splits prod.splits if_splits list.splits)

lemma scan_once_number:
  "match_number (c # s) = Some ((i, f, e), r) \<Longrightarrow>
     scan_once (Suc n) (c # s) =
       (if f \<noteq> [] \<or> e \<noteq> [] then Inr (PFloat (i @ f @ e), r) else Inr (PInt (parse_int i), r))"
  using match_number_start [of c s "((i, f, e), r)"]
  by (auto simp add: is_digit_def str_def)

lemma digits_value_snoc: "digits_value (ds @ [d]) = 10 * digits_value ds + (d - 0x30)"
  by (simp add: digits_value_def)

lemma nat_repr_value: "digits_value (nat_repr n) = n"
proof (induction n rule: nat_repr.induct)
  case (1 n)
  show ?case
  proof (cases "n < 10")
    case True
    then show ?thesis
      by (subst nat_repr.simps) (simp add: digits_value_def)
  next
    case False
    then show ?thesis
      using 1 by (subst nat_repr.simps) (simp add: digits_value_snoc)
  qed
qed

lemma nat_repr_digits: "takeWhile is_digit (nat_repr n) = nat_repr n"
proof (induction n rule: nat_repr.induct)
  case (1 n)
  show ?case
  proof (cases "n < 10")
    case True
    then show ?thesis
      by (subst (1 2) nat_repr.simps) (simp add: is_digit_def)
  next
    case False
    have "\<forall>c \<in> set (nat_repr (n div 10)). is_digit c"
      using 1 False by (metis takeWhile_eq_all_conv)
    moreover have "is_digit (0x30 + n mod 10)"
      by (simp add: is_digit_def)
    ultimately show ?thesis
      using False by (subst (1 2) nat_repr.simps) (simp add: takeWhile_eq_all_conv)
  qed
qed

lemma nat_repr_head:
  "\<exists>d ds. nat_repr n = d # ds \<and> is_digit d \<and> (d = 0x30 \<longrightarrow> ds = [])"
proof (induction n rule: nat_repr.induct)
  case (1 n)
  show ?case
  proof (cases "n < 10")
    case True
    then show ?thesis
      by (subst nat_repr.simps) (simp add: is_digit_def)
  next
    case False
    then obtain d ds where d: "nat_repr (n div 10) = d # ds" "is_digit d" "d = 0x30 \<longrightarrow> ds = []"
      using 1 by blast
    have "d \<noteq> 0x30"
    proof
      assume "d = 0x30"
      with d have "nat_repr (n div 10) = [0x30]" by simp
      then have "digits_value (nat_repr (n div 10)) = 0"
        by (simp add: digits_value_def)
      then show False
        using False by (simp add: nat_repr_value)
    qed
    with d False show ?thesis
      by (subst nat_repr.simps) simp
  qed
qed

lemma match_integer_nat_repr: "match_integer (nat_repr n) = Some (nat_repr n, [])"
proof -
  obtain d ds where d: "nat_repr n = d # ds" "is_digit d" "d = 0x30 \<longrightarrow> ds = []"
    using nat_repr_head by blast
  have "takeWhile is_digit (d # ds) = d # ds"
    using nat_repr_digits [of n] d by simp
  with d(2) have ds: "takeWhile is_digit ds = ds" "dropWhile is_digit ds = []"
    by (simp_all add: takeWhile_eq_all_conv)
  from d have "d \<noteq> 0x2D"
    by (auto simp add: is_digit_def)
  with d ds show ?thesis
    by (auto simp add: match_integer_def)
qed

lemma match_integer_int_repr: "match_integer (int_repr i) = Some (int_repr i, [])"
proof (cases "i < 0")
  case True
  obtain d ds where d: "nat_repr (nat (- i)) = d # ds" "is_digit d" "d = 0x30 \<longrightarrow> ds = []"
    using nat_repr_head by blast
  have "takeWhile is_digit (d # ds) = d # ds"
    using nat_repr_digits [of "nat (- i)"] d by simp
  with d(2) have ds: "takeWhile is_digit ds = ds" "dropWhile is_digit ds = []"
    by (simp_all add: takeWhile_eq_all_conv)
  from True d ds show ?thesis
    by (auto simp add: match_integer_def int_repr_def)
next
  case False
  then show ?thesis
    by (simp add: int_repr_def match_integer_nat_repr)
qed

lemma match_number_int_repr:
  "delim t \<Longrightarrow> match_number (int_repr i @ t) = Some ((int_repr i, [], []), t)"
proof -
  assume t: "delim t"
  have "match_number (int_repr i) = Some ((int_repr i, [], []), [])"
    by (simp add: match_number_def match_integer_int_repr match_frac_def match_exp_def)
  from match_number_append [OF this t] show ?thesis by simp
qed

lemma parse_int_repr: "parse_int (int_repr i) = i"
proof (cases "i < 0")
  case True
  then show ?thesis
    by (simp add: parse_int_def int_repr_def nat_repr_value)
next
  case False
  obtain d ds where d: "nat_repr (nat i) = d # ds" "is_digit d"
    using nat_repr_head by blast
  then have "d \<noteq> 0x2D"
    by (auto simp add: is_digit_def)
  moreover have "digits_value (d # ds) = nat i"
    using nat_repr_value [of "nat i"] d by simp
  ultimately show ?thesis
    using False d by (simp add: parse_int_def int_repr_def)
qed

lemma int_repr_Cons: "\<exists>c s. int_repr i = c # s"
  using nat_repr_head [of "nat i"] by (auto simp add: int_repr_def)

lemma scan_once_int:
  "delim t \<Longrightarrow> scan_once (Suc n) (int_repr i @ t) = Inr (PInt i, t)"
proof -
  assume t: "delim t"
  obtain c s where cs: "int_repr i = c # s"
    using int_repr_Cons by blast
  have m: "match_number (c # (s @ t)) = Some ((int_repr i, [], []), t)"
    using match_number_int_repr [OF t, of i] cs by simp
  have "scan_once (Suc n) (c # (s @ t)) = Inr (PInt i, t)"
    using scan_once_number [OF m, of n] by (simp del: scan_once.simps add: parse_int_repr)
  then show ?thesis
    by (simp only: cs append_Cons)
qed

subsection \<open>Values\<close>

lemma update_fresh: "k \<notin> fst ` set d \<Longrightarrow> AList.update k v d = d @ [(k, v)]"
  by (induction d) auto

lemma dict_of_pairs_snoc:
  "dict_of_pairs (ps @ [(k, v)]) = AList.update k v (dict_of_pairs ps)"
  by (simp add: dict_of_pairs_def)

lemma dict_of_pairs_distinct: "distinct (map fst ps) \<Longrightarrow> dict_of_pairs ps = ps"
proof (induction ps rule: rev_induct)
  case Nil
  then show ?case by (simp add: dict_of_pairs_def)
next
  case (snoc p ps)
  obtain k v where p: "p = (k, v)" by (cases p)
  from snoc.prems have "distinct (map fst ps)" and "k \<notin> fst ` set ps"
    by (simp_all add: p)
  then show ?case
    using snoc.IH by (simp add: p dict_of_pairs_snoc update_fresh)
qed

lemma skip_ws_Cons: "skip_ws (c # s) = (if is_ws c then skip_ws s else c # s)"
  by (simp add: skip_ws_def)

lemma dumps_head:
  assumes "encodable v"
  shows "\<exists>c s. json_dumps fs v = c # s \<and> \<not> is_ws c \<and> c \<noteq> 0x5D"
proof (cases v)
  case (PInt i)
  obtain d ds where "nat_repr (nat (if i < 0 then - i else i)) = d # ds" "is_digit d"
    using nat_repr_head by blast
  then show ?thesis
    using PInt by (auto simp add: int_repr_def is_ws_def is_digit_def split: if_splits)
next
  case (PFloat lit)
  then show ?thesis
    using assms by simp
qed (simp_all add: str_def is_ws_def encode_basestring_ascii_def)

lemma skip_ws_dumps: "encodable v \<Longrightarrow> skip_ws (json_dumps fs v @ t) = json_dumps fs v @ t"
  using dumps_head [of v fs] by (auto simp add: skip_ws_Cons)

lemma dumps_items_Cons: "dumps_items fs (v # vs) = json_dumps fs v @ (if vs = [] then [] else str '', '' @ dumps_items fs vs)"
  by (cases vs) simp_all

lemma dumps_pairs_Cons:
  "dumps_pairs fs ((k, v) # ps) =
     0x22 # concat (map escape_char k) @ 0x22 # str '': '' @ json_dumps fs v @
       (if ps = [] then [] else str '', '' @ dumps_pairs fs ps)"
  by (cases ps) (simp_all add: encode_basestring_ascii_def)

lemma roundtrip_value:
    "encodable v \<Longrightarrow> delim t \<Longrightarrow> size v < n \<Longrightarrow> scan_once n (json_dumps fs v @ t) = Inr (v, t)"
  and roundtrip_items:
    "vs \<noteq> [] \<Longrightarrow> encodable_items vs \<Longrightarrow> size_list size vs < n \<Longrightarrow>
       array_loop n acc (dumps_items fs vs @ 0x5D # t) = Inr (PList (acc @ vs), t)"
  and roundtrip_pairs:
    "ps \<noteq> [] \<Longrightarrow> encodable_pairs ps \<Longrightarrow> size_list (size_prod (\<lambda>k. 0) size) ps < n \<Longrightarrow>
       object_loop n bcc (tl (dumps_pairs fs ps) @ 0x7D # t) = Inr (PDict (dict_of_pairs (bcc @ ps)), t)"
proof (induction fs v and fs vs and fs ps arbitrary: n t and n acc t and n bcc t
        rule: json_dumps_dumps_items_dumps_pairs.induct)
  case (1 fs)
  then obtain m where "n = Suc m" by (cases n) auto
  then show ?case by (simp add: str_def)
next
  case (2 fs b)
  then obtain m where "n = Suc m" by (cases n) auto
  then show ?case by (simp add: str_def)
next
  case (3 fs i)
  then obtain m where "n = Suc m" by (cases n) auto
  with 3 show ?case by (simp del: scan_once.simps add: scan_once_int)
next
  case (4 fs lit)
  then show ?case by simp
next
  case (5 fs s)
  then obtain m where "n = Suc m" by (cases n) auto
  with 5 show ?case
    by (simp add: encode_basestring_ascii_def scan_escaped)
next
  case (6 fs vs)
  then obtain m where n: "n = Suc m" by (cases n) auto
  show ?case
  proof (cases "vs = []")
    case True
    then show ?thesis by (simp add: n str_def skip_ws_Cons is_ws_def)
  next
    case False
    then obtain v ws where vs: "vs = v # ws" by (cases vs) auto
    from "6.prems" have ev: "encodable v" by (simp add: vs)
    obtain c s where cs: "json_dumps fs v = c # s" "\<not> is_ws c" "c \<noteq> 0x5D"
      using dumps_head [OF ev] by blast
    have "dumps_items fs vs @ 0x5D # t = c # (s @ (if ws = [] then [] else str '', '' @ dumps_items fs ws) @ 0x5D # t)"
      by (simp add: vs dumps_items_Cons cs)
    then have "scan_once n (json_dumps fs (PList vs) @ t) = array_loop m [] (dumps_items fs vs @ 0x5D # t)"
      using False cs by (simp add: n skip_ws_Cons)
    also have "\<dots> = Inr (PList ([] @ vs), t)"
      using "6.IH" [OF False False, where n = m and t = t and acc = "[]"] "6.prems" by (simp add: n)
    finally show ?thesis by simp
  qed
next
  case (7 fs ps)
  then obtain m where n: "n = Suc m" by (cases n) auto
  show ?case
  proof (cases "ps = []")
    case True
    then show ?thesis by (simp add: n str_def skip_ws_Cons is_ws_def)
  next
    case False
    then obtain k v qs where ps: "ps = (k, v) # qs" by (cases ps) auto
    have "scan_once n (json_dumps fs (PDict ps) @ t) = object_loop m [] (tl (dumps_pairs fs ps) @ 0x7D # t)"
      using False by (simp add: n ps dumps_pairs_Cons skip_ws_Cons is_ws_def)
    also have "\<dots> = Inr (PDict (dict_of_pairs ([] @ ps)), t)"
      using "7.IH" [OF False False, where n = m and t = t and bcc = "[]"] "7.prems" by (simp add: n)
    finally show ?thesis
      using "7.prems" by (simp add: dict_of_pairs_distinct)
  qed
next
  case (8 fs)
  then show ?case by simp
next
  case (9 fs v)
  then obtain m where n: "n = Suc m" by (cases n) auto
  have d: "delim (0x5D # t)" by (simp add: delim_def)
  have "scan_once m (json_dumps fs v @ 0x5D # t) = Inr (v, 0x5D # t)"
    using "9.IH" [OF _ d, where n = m] "9.prems" by (simp add: n)
  then show ?case
    by (simp add: n skip_ws_Cons is_ws_def)
next
  case (10 fs v w vs)
  then obtain m where n: "n = Suc m" by (cases n) auto
  let ?rest = "dumps_items fs (w # vs) @ 0x5D # t"
  have d: "delim (str '', '' @ ?rest)" by (simp add: delim_def str_def)
  have s: "scan_once m (json_dumps fs v @ str '', '' @ ?rest) = Inr (v, str '', '' @ ?rest)"
    using "10.IH"(1) [OF _ d, where n = m] "10.prems" by (simp add: n)
  have ew: "encodable w" using "10.prems" by simp
  have sk: "skip_ws ?rest = ?rest"
    using skip_ws_dumps [OF ew] by (simp add: dumps_items_Cons)
  have "array_loop n acc (dumps_items fs (v # w # vs) @ 0x5D # t) = array_loop m (acc @ [v]) ?rest"
    using s sk by (simp add: n str_def skip_ws_Cons is_ws_def)
  also have "\<dots> = Inr (PList ((acc @ [v]) @ w # vs), t)"
    using "10.IH"(2) [where n = m and acc = "acc @ [v]" and t = t] "10.prems" by (simp add: n)
  finally show ?case by simp
next
  case (11 fs)
  then show ?case by simp
next
  case (12 fs k v)
  then obtain m where n: "n = Suc m" by (cases n) auto
  have d: "delim (0x7D # t)" by (simp add: delim_def)
  have s: "scan_once m (json_dumps fs v @ 0x7D # t) = Inr (v, 0x7D # t)"
    using "12.IH" [OF _ d, where n = m] "12.prems" by (simp add: n)
  have ev: "encodable v" using "12.prems" by simp
  have k: "scanstring [] (concat (map escape_char k) @ 0x22 # r) = Inr (k, r)" for r
    using scan_escaped [of k "[]" r] "12.prems" by simp
  show ?case
    using s skip_ws_dumps [OF ev, where t = "0x7D # t" and fs = fs]
    by (simp add: n encode_basestring_ascii_def k str_def skip_ws_Cons is_ws_def)
next
  case (13 fs k v p ps)
  then obtain m where n: "n = Suc m" by (cases n) auto
  obtain k2 v2 where p: "p = (k2, v2)" by (cases p)
  let ?rest = "tl (dumps_pairs fs (p # ps)) @ 0x7D # t"
  have dp: "dumps_pairs fs (p # ps) = 0x22 # tl (dumps_pairs fs (p # ps))"
    by (simp add: p dumps_pairs_Cons)
  have d: "delim (str '', '' @ dumps_pairs fs (p # ps) @ 0x7D # t)" by (simp add: delim_def str_def)
  have s: "scan_once m (json_dumps fs v @ str '', '' @ dumps_pairs fs (p # ps) @ 0x7D # t)
             = Inr (v, str '', '' @ dumps_pairs fs (p # ps) @ 0x7D # t)"
    using "13.IH"(1) [OF _ d, where n = m] "13.prems" by (simp add: n)
  have ev: "encodable v" using "13.prems" by simp
  have k: "scanstring [] (concat (map escape_char k) @ 0x22 # r) = Inr (k, r)" for r
    using scan_escaped [of k "[]" r] "13.prems" by simp
  have "object_loop n bcc (tl (dumps_pairs fs ((k, v) # p # ps)) @ 0x7D # t)
          = object_loop m (bcc @ [(k, v)]) ?rest"
    using s skip_ws_dumps [OF ev, where t = "str '', '' @ dumps_pairs fs (p # ps) @ 0x7D # t" and fs = fs]
    apply (simp add: n encode_basestring_ascii_def k str_def skip_ws_Cons is_ws_def)
    apply (subst dp)
    apply (simp add: skip_ws_Cons is_ws_def)
    done
  also have "\<dots> = Inr (PDict (dict_of_pairs ((bcc @ [(k, v)]) @ p # ps)), t)"
    using "13.IH"(2) [where n = m and bcc = "bcc @ [(k, v)]" and t = t] "13.prems" by (simp add: n p)
  finally show ?case by simp
qed

lemma dumps_size:
    "size v \<le> length (json_dumps fs v)"
  and dumps_items_size: "size_list size vs \<le> length (dumps_items fs vs) + 1"
  and dumps_pairs_size: "size_list (size_prod (\<lambda>k. 0) size) ps \<le> length (dumps_pairs fs ps) + 1"
  by (induction fs v and fs vs and fs ps rule: json_dumps_dumps_items_dumps_pairs.induct)
    (simp_all add: str_def encode_basestring_ascii_def)

lemma dumps_not_bom:
  assumes "encodable v"
  shows "take 1 (json_dumps fs v) \<noteq> [0xFEFF]"
proof (cases v)
  case (PInt i)
  obtain d ds where "nat_repr (nat (if i < 0 then - i else i)) = d # ds" "is_digit d"
    using nat_repr_head by blast
  then show ?thesis
    using PInt by (auto simp add: int_repr_def is_digit_def split: if_splits)
next
  case (PFloat lit)
  then show ?thesis
    using assms by simp
qed (simp_all add: str_def encode_basestring_ascii_def)

lemma loads_dumps: "encodable v \<Longrightarrow> json_loads (PStr (json_dumps fs v)) = Inr v"
proof -
  assume e: "encodable v"
  have "size v < 2 * length (json_dumps fs v) + 1"
    using dumps_size [of v fs] by simp
  then have "scan_once (2 * length (json_dumps fs v) + 1) (json_dumps fs v @ []) = Inr (v, [])"
    using roundtrip_value [OF e, where t = "[]" and fs = fs] by (simp add: delim_def)
  then show ?thesis
    using skip_ws_dumps [OF e, where t = "[]" and fs = fs] dumps_not_bom [OF e, of fs]
    by (simp add: json_loads_def json_decode_def skip_ws_def)
qed

lemma maybe_json_dumps: "encodable v \<Longrightarrow> maybe_json (PStr (json_dumps fs v)) = v"
  by (simp add: maybe_json_def loads_dumps)


section \<open>The step budget of the decoder\<close>

text \<open>
  Every scan consumes input, so the budget that \<open>json_decode\<close> starts with is never used
  up: the decoder's failures are those of \<open>json.loads\<close>.
\<close>

lemma skip_ws_length: "length (skip_ws s) \<le> length s"
  by (simp add: skip_ws_def length_dropWhile_le)

lemma skip_ws_Cons_length: "skip_ws s = c # r \<Longrightarrow> length r < length s"
  using skip_ws_length [of s] by simp

lemma skip_ws_less: "length r < length (skip_ws x) \<Longrightarrow> length r < length x"
  using skip_ws_length [of x] by simp

lemma scanstring_consumes: "scanstring acc s = Inr (x, r) \<Longrightarrow> length r < length s"
proof (induction acc s rule: scanstring.induct)
  case (1 chunks)
  then show ?case by simp
next
  case (2 chunks c s)
  show ?case
  proof (cases "c = 0x22")
    case True
    with "2.prems" show ?thesis by simp
  next
    case q: False
    show ?thesis
    proof (cases "c = 0x5C")
      case False
      with q "2.prems" "2.IH"(5) show ?thesis
        by (auto split: if_splits)
    next
      case True
      with q "2.prems" obtain esc s1 where s: "s = esc # s1"
        by (cases s) auto
      show ?thesis
      proof (cases "esc = 0x75")
        case False
        with q True s "2.prems" "2.IH"(1) show ?thesis
          by (fastforce split: option.splits)
      next
        case u: True
        with q True s "2.prems" obtain uni where uni: "decode_uXXXX s1 = Some uni"
          by (auto split: option.splits)
        show ?thesis
        proof (cases "0xD800 \<le> uni \<and> uni \<le> 0xDBFF \<and> take 2 (drop 4 s1) = [0x5C, 0x75]")
          case False
          with q True s u uni "2.prems" "2.IH"(4) [OF q True s _ uni False] show ?thesis
            by (auto split: if_splits)
        next
          case pair: True
          with q True s u uni "2.prems" obtain uni2 where uni2: "decode_uXXXX (drop 6 s1) = Some uni2"
            by (auto split: option.splits)
          show ?thesis
          proof (cases "0xDC00 \<le> uni2 \<and> uni2 \<le> 0xDFFF")
            case low: True
            have "length r < length (drop 10 s1)"
              using q True s u uni pair uni2 low "2.prems" "2.IH"(2) [OF q True s _ uni pair uni2 low]
              by auto
            then show ?thesis
              using s by simp
          next
            case low: False
            have "length r < length (drop 4 s1)"
              using q True s u uni pair uni2 low "2.prems" "2.IH"(3) [OF q True s _ uni pair uni2 low]
              by auto
            then show ?thesis
              using s by simp
          qed
        qed
      qed
    qed
  qed
qed

lemma match_number_consumes: "match_number s = Some (g, r) \<Longrightarrow> length r < length s"
proof -
  assume m: "match_number s = Some (g, r)"
  obtain i f e where g: "g = (i, f, e)" by (cases g)
  from m have "s = i @ f @ e @ r"
    unfolding g by (rule match_number_parts)
  moreover from m obtain s1 where "match_integer s = Some (i, s1)"
    by (auto simp add: g match_number_def split: option.splits prod.splits)
  then have "i \<noteq> []"
    by (auto simp add: match_integer_def split: list.splits if_splits)
  ultimately have "length s = length i + length f + length e + length r" "0 < length i"
    by simp_all
  then show ?thesis by simp
qed


lemma consumes_all:
  "(\<forall>s v r. scan_once n s = Inr (v, r) \<longrightarrow> length r < length s) \<and>
   (\<forall>vs s v r. array_loop n vs s = Inr (v, r) \<longrightarrow> length r < length s) \<and>
   (\<forall>ps s v r. object_loop n ps s = Inr (v, r) \<longrightarrow> length r < length s)"
proof (induction n)
  case 0
  then show ?case by simp
next
  case (Suc n)
  then have ih1: "\<And>s v r. scan_once n s = Inr (v, r) \<Longrightarrow> length r < length s"
    and ih2: "\<And>vs s v r. array_loop n vs s = Inr (v, r) \<Longrightarrow> length r < length s"
    and ih3: "\<And>ps s v r. object_loop n ps s = Inr (v, r) \<Longrightarrow> length r < length s"
    by blast+
  have a: "length r < length s" if "scan_once (Suc n) s = Inr (v, r)" for s v r
  proof (cases s)
    case Nil
    with that show ?thesis by simp
  next
    case (Cons c t)
    show ?thesis
    proof (cases "c = 0x22")
      case True
      with that Cons show ?thesis
        by (auto split: sum.splits dest: scanstring_consumes)
    next
      case q: False
      show ?thesis
      proof (cases "c = 0x7B")
        case True
        with that Cons q show ?thesis
          by (auto split: list.splits if_splits dest!: ih3 skip_ws_Cons_length)
      next
        case b: False
        show ?thesis
        proof (cases "c = 0x5B")
          case True
          with that Cons q b show ?thesis
            using skip_ws_length [of t]
            by (auto split: list.splits if_splits dest!: ih2 skip_ws_Cons_length)
        next
          case k: False
          with that Cons q b show ?thesis
            by (auto split: if_splits option.splits dest!: match_number_consumes)
        qed
      qed
    qed
  qed
  have b: "length r < length s" if "array_loop (Suc n) vs s = Inr (v, r)" for vs s v r
    using that
    by (auto split: sum.splits list.splits if_splits dest!: ih1 ih2 skip_ws_Cons_length skip_ws_less)
  have c: "length r < length s" if "object_loop (Suc n) ps s = Inr (v, r)" for ps s v r
    using that
    by (auto split: sum.splits list.splits if_splits
          dest!: ih1 ih3 skip_ws_Cons_length scanstring_consumes skip_ws_less)
  from a b c show ?case by blast
qed


lemma scan_once_consumes: "scan_once n s = Inr (v, r) \<Longrightarrow> length r < length s"
  using consumes_all by blast

lemma scanstring_fuel: "scanstring acc s \<noteq> Inl OutOfFuel"
  by (induction acc s rule: scanstring.induct) (auto split: list.splits option.splits)

lemma fuel_scan:
  assumes ih2: "\<And>vs s. 2 * length s + 1 < n \<Longrightarrow> array_loop n vs s \<noteq> Inl OutOfFuel"
    and ih3: "\<And>ps s. 2 * length s + 1 < n \<Longrightarrow> object_loop n ps s \<noteq> Inl OutOfFuel"
    and len: "2 * length s < Suc n"
  shows "scan_once (Suc n) s \<noteq> Inl OutOfFuel"
proof (cases s)
  case Nil
  then show ?thesis by simp
next
  case (Cons c t)
  have t: "2 * length t + 1 < n"
    using len Cons by simp
  show ?thesis
  proof (cases "c = 0x22")
    case True
    then show ?thesis
      using scanstring_fuel [of "[]" t] by (auto simp add: Cons split: sum.splits prod.splits)
  next
    case q: False
    show ?thesis
    proof (cases "c = 0x7B")
      case True
      show ?thesis
      proof (cases "skip_ws t")
        case Nil
        with True q show ?thesis by (simp add: Cons)
      next
        case (Cons c1 r)
        have "object_loop n [] r \<noteq> Inl OutOfFuel"
          using skip_ws_Cons_length [OF Cons] t by (intro ih3) simp
        with True q Cons show ?thesis
          by (simp add: \<open>s = c # t\<close>)
      qed
    next
      case b: False
      show ?thesis
      proof (cases "c = 0x5B")
        case True
        show ?thesis
        proof (cases "skip_ws t")
          case Nil
          have "array_loop n [] [] \<noteq> Inl OutOfFuel"
            using t by (intro ih2) simp
          with True q b Nil show ?thesis by (simp add: Cons)
        next
          case (Cons c1 r)
          have "array_loop n [] (c1 # r) \<noteq> Inl OutOfFuel"
            using skip_ws_length [of t] Cons t by (intro ih2) simp
          with True q b Cons show ?thesis
            by (simp add: \<open>s = c # t\<close>)
        qed
      next
        case k: False
        with q b show ?thesis
          by (simp add: Cons split: option.splits prod.splits)
      qed
    qed
  qed
qed

lemma fuel_array:
  assumes ih1: "\<And>s. 2 * length s < n \<Longrightarrow> scan_once n s \<noteq> Inl OutOfFuel"
    and ih2: "\<And>vs s. 2 * length s + 1 < n \<Longrightarrow> array_loop n vs s \<noteq> Inl OutOfFuel"
    and len: "2 * length s + 1 < Suc n"
  shows "array_loop (Suc n) vs s \<noteq> Inl OutOfFuel"
proof (cases "scan_once n s")
  case (Inl e)
  have "scan_once n s \<noteq> Inl OutOfFuel"
    using len by (intro ih1) simp
  with Inl show ?thesis by simp
next
  case (Inr p)
  obtain v r where p: "p = (v, r)" by (cases p)
  show ?thesis
  proof (cases "skip_ws r")
    case Nil
    with Inr p show ?thesis by simp
  next
    case (Cons c r1)
    have "array_loop n (vs @ [v]) (skip_ws r1) \<noteq> Inl OutOfFuel"
      using scan_once_consumes [of n s v r] Inr p skip_ws_Cons_length [OF Cons]
        skip_ws_length [of r1] len
      by (intro ih2) simp
    with Inr p Cons show ?thesis by simp
  qed
qed

lemma fuel_object:
  assumes ih1: "\<And>s. 2 * length s < n \<Longrightarrow> scan_once n s \<noteq> Inl OutOfFuel"
    and ih3: "\<And>ps s. 2 * length s + 1 < n \<Longrightarrow> object_loop n ps s \<noteq> Inl OutOfFuel"
    and len: "2 * length s + 1 < Suc n"
  shows "object_loop (Suc n) ps s \<noteq> Inl OutOfFuel"
proof (cases "scanstring [] s")
  case (Inl e)
  with scanstring_fuel [of "[]" s] show ?thesis by simp
next
  case (Inr p)
  obtain k r where p: "p = (k, r)" by (cases p)
  have r: "length r < length s"
    using scanstring_consumes [of "[]" s k r] Inr p by simp
  show ?thesis
  proof (cases "skip_ws r")
    case Nil
    with Inr p show ?thesis by simp
  next
    case (Cons c r1)
    have r1: "length (skip_ws r1) < length r"
      using skip_ws_Cons_length [OF Cons] skip_ws_length [of r1] by simp
    show ?thesis
    proof (cases "scan_once n (skip_ws r1)")
      case (Inl e)
      have "scan_once n (skip_ws r1) \<noteq> Inl OutOfFuel"
        using r r1 len by (intro ih1) simp
      with Inl \<open>scanstring [] s = Inr p\<close> p Cons show ?thesis by simp
    next
      case v: (Inr pv)
      obtain v r2 where pv: "pv = (v, r2)" by (cases pv)
      have r2: "length r2 < length (skip_ws r1)"
        using scan_once_consumes [of n "skip_ws r1" v r2] v pv by simp
      show ?thesis
      proof (cases "skip_ws r2")
        case Nil
        with \<open>scanstring [] s = Inr p\<close> p Cons v pv show ?thesis by simp
      next
        case c2: (Cons c2 r3)
        show ?thesis
        proof (cases "skip_ws r3")
          case Nil
          with \<open>scanstring [] s = Inr p\<close> p Cons v pv c2 show ?thesis by simp
        next
          case c3: (Cons c3 r4)
          have "object_loop n (ps @ [(k, v)]) r4 \<noteq> Inl OutOfFuel"
            using r r1 r2 skip_ws_Cons_length [OF c2] skip_ws_Cons_length [OF c3] len
            by (intro ih3) simp
          with \<open>scanstring [] s = Inr p\<close> p Cons v pv c2 c3 show ?thesis by simp
        qed
      qed
    qed
  qed
qed

lemma fuel_all:
  "(\<forall>s. 2 * length s < n \<longrightarrow> scan_once n s \<noteq> Inl OutOfFuel) \<and>
   (\<forall>vs s. 2 * length s + 1 < n \<longrightarrow> array_loop n vs s \<noteq> Inl OutOfFuel) \<and>
   (\<forall>ps s. 2 * length s + 1 < n \<longrightarrow> object_loop n ps s \<noteq> Inl OutOfFuel)"
proof (induction n)
  case 0
  then show ?case by simp
next
  case (Suc n)
  then have ih1: "\<And>s. 2 * length s < n \<Longrightarrow> scan_once n s \<noteq> Inl OutOfFuel"
    and ih2: "\<And>vs s. 2 * length s + 1 < n \<Longrightarrow> array_loop n vs s \<noteq> Inl OutOfFuel"
    and ih3: "\<And>ps s. 2 * length s + 1 < n \<Longrightarrow> object_loop n ps s \<noteq> Inl OutOfFuel"
    by blast+
  show ?case
    using fuel_scan [OF ih2 ih3] fuel_array [OF ih1 ih2] fuel_object [OF ih1 ih3]
    by blast
qed

lemma json_decode_fuel: "json_decode s \<noteq> Inl OutOfFuel"
proof -
  have "2 * length (skip_ws s) < 2 * length s + 1"
    using skip_ws_length [of s] by simp
  then have "scan_once (2 * length s + 1) (skip_ws s) \<noteq> Inl OutOfFuel"
    using fuel_all by blast
  then show ?thesis
    by (auto simp add: json_decode_def split: sum.splits)
qed

lemma json_loads_fuel: "json_loads v \<noteq> Inl OutOfFuel"
  by (cases v) (simp_all add: json_loads_def json_decode_fuel)

end
